theory Spec2Isabelle
  imports Main
begin

section \<open>Data model\<close>

text \<open>
  The component \<open>App\<close> keeps an activity timeline for the exchange in flight, a map from
  the identity of a completed assistant message to the timeline that produced it, an
  optional background context and a boolean latch (a React ref).

  A \<open>ProcessedEvent\<close> is the summary record \<open>{ title, data }\<close> of one research phase.
\<close>

record ProcessedEvent =
  title :: string
  data :: string

text \<open>
  A chat message of the agent stream: \<open>type\<close>, \<open>content\<close> and the optional \<open>id\<close>.
\<close>

record Message =
  msg_type :: string
  content :: string
  msg_id :: "string option"

text \<open>
  An update notification maps the name of a research phase to the payload of that phase.
  The source declares it as \<open>any\<close>; the model gives it the shape the classifier reads.
  The classifier tests the value under a key for truthiness only, so \<open>None\<close> stands for
  a key that is absent or whose value is falsy (\<open>undefined\<close>, \<open>null\<close>), and \<open>Some p\<close>
  for a key that carries a payload, an object \<open>p\<close> (every object is truthy). In a
  payload, \<open>None\<close> is an absent field; a query is a string, a label is a string or
  absent. The payloads of \<open>reflection\<close> and \<open>finalize_answer\<close> are not inspected.
\<close>

record generate_query_payload =
  search_query :: "string list option"

record source =
  label :: "string option"

record web_research_payload =
  sources_gathered :: "source list option"

record update_event =
  generate_query :: "generate_query_payload option"
  web_research :: "web_research_payload option"
  reflection :: "unit option"
  finalize_answer :: "unit option"

text \<open>The object handed to \<open>thread.submit\<close>.\<close>

record submit_payload =
  messages :: "Message list"
  initial_search_query_count :: nat
  max_research_loops :: nat
  reasoning_model :: string

text \<open>
  The state of the component. Arrays are objects: \<open>arrays\<close> is the store of every array
  allocated so far and a reference is an index into it. \<open>processedEventsTimeline\<close> is the
  reference held by the state hook of the live timeline, \<open>historicalActivities\<close> maps a
  message identity to the reference archived under it, \<open>hasFinalizeEventOccurredRef\<close> is
  the \<open>current\<close> field of the ref.
\<close>

record app_state =
  arrays :: "ProcessedEvent list list"
  processedEventsTimeline :: nat
  historicalActivities :: "string \<rightharpoonup> nat"
  backgroundContext :: "string option"
  hasFinalizeEventOccurredRef :: bool

definition liveTimeline :: "app_state \<Rightarrow> ProcessedEvent list" where
  "liveTimeline s = arrays s ! processedEventsTimeline s"

definition historicalTimeline :: "app_state \<Rightarrow> string \<Rightarrow> ProcessedEvent list option" where
  "historicalTimeline s k = map_option (\<lambda>r. arrays s ! r) (historicalActivities s k)"

text \<open>
  Every reference held by the state points into the store. The initial state and every
  handler keep it so (lemmas \<open>wf_init\<close>, \<open>wf_step\<close> and \<open>wf_run\<close>), so every state the
  component reaches is well formed.
\<close>

definition wf :: "app_state \<Rightarrow> bool" where
  "wf s \<longleftrightarrow> processedEventsTimeline s < length (arrays s)
     \<and> (\<forall>r \<in> ran (historicalActivities s). r < length (arrays s))"

definition init_state :: app_state where
  "init_state = \<lparr>arrays = [[]], processedEventsTimeline = 0,
     historicalActivities = Map.empty, backgroundContext = None,
     hasFinalizeEventOccurredRef = False\<rparr>"

section \<open>JavaScript library functions used by the handlers\<close>

text \<open>\<open>Array.prototype.join\<close> on an array of strings.\<close>

fun js_join :: "string \<Rightarrow> string list \<Rightarrow> string" where
  "js_join sep [] = []"
| "js_join sep [x] = x"
| "js_join sep (x # y # ys) = x @ sep @ js_join sep (y # ys)"

text \<open>The decimal rendering of a non-negative integer, as a template literal prints it.\<close>

definition digit_char :: "nat \<Rightarrow> char" where
  "digit_char d = char_of (48 + d)"

fun string_of_nat :: "nat \<Rightarrow> string" where
  "string_of_nat n =
     (if n < 10 then [digit_char n]
      else string_of_nat (n div 10) @ [digit_char (n mod 10)])"

declare string_of_nat.simps [simp del]

text \<open>
  \<open>String.prototype.trim\<close> strips white space and line terminators from both ends. A
  \<open>char\<close> stands for a code unit below 256; the code units below 256 that \<open>trim\<close> strips
  are tab, line feed, vertical tab, form feed, carriage return, space and no-break space.
\<close>

definition is_whitespace :: "char \<Rightarrow> bool" where
  "is_whitespace c \<longleftrightarrow> (of_char c :: nat) \<in> {9, 10, 11, 12, 13, 32, 160}"

definition trim :: "string \<Rightarrow> string" where
  "trim s = rev (dropWhile is_whitespace (rev (dropWhile is_whitespace s)))"

text \<open>
  \<open>filter(Boolean)\<close> on the labels read off the sources: \<open>undefined\<close> and the empty
  string are falsy and dropped.
\<close>

fun filter_Boolean :: "string option list \<Rightarrow> string list" where
  "filter_Boolean [] = []"
| "filter_Boolean (None # ls) = filter_Boolean ls"
| "filter_Boolean (Some l # ls) = (if l = [] then filter_Boolean ls else l # filter_Boolean ls)"

text \<open>
  \<open>[...new Set(xs)]\<close>: the constructor adds the elements in order, adding an element
  already in the set changes nothing, and the spread lists the set in insertion order.
\<close>

definition set_add :: "'a list \<Rightarrow> 'a \<Rightarrow> 'a list" where
  "set_add acc x = (if x \<in> set acc then acc else acc @ [x])"

definition new_Set :: "'a list \<Rightarrow> 'a list" where
  "new_Set xs = foldl set_add [] xs"

section \<open>The handlers of \<open>App\<close>\<close>

text \<open>
  The \<open>if\<close>/\<open>else if\<close> chain of \<open>onUpdateEvent\<close>: the record it builds (\<open>null\<close> when no
  branch is taken) and whether the branch sets the ref.
\<close>

definition processEvent :: "update_event \<Rightarrow> ProcessedEvent option \<times> bool" where
  "processEvent event =
     (case generate_query event of
        Some gq \<Rightarrow>
          (Some \<lparr>title = ''Generating Search Queries'',
                 data = (case search_query gq of
                           None \<Rightarrow> []
                         | Some qs \<Rightarrow>
                             (let joined = js_join '', '' qs
                              in if joined = [] then [] else joined))\<rparr>,
           False)
      | None \<Rightarrow>
     (case web_research event of
        Some wr \<Rightarrow>
          (let sources = (case sources_gathered wr of None \<Rightarrow> [] | Some l \<Rightarrow> l);
               numSources = length sources;
               uniqueLabels = new_Set (filter_Boolean (map label sources));
               exampleLabels = js_join '', '' (take 3 uniqueLabels)
           in (Some \<lparr>title = ''Web Research'',
                      data = ''Gathered '' @ string_of_nat numSources
                             @ '' sources. Related to: ''
                             @ (if exampleLabels = [] then ''N/A'' else exampleLabels)
                             @ ''.''\<rparr>,
               False))
      | None \<Rightarrow>
     (case reflection event of
        Some _ \<Rightarrow>
          (Some \<lparr>title = ''Reflection'', data = ''Analysing Web Research Results''\<rparr>, False)
      | None \<Rightarrow>
     (case finalize_answer event of
        Some _ \<Rightarrow>
          (Some \<lparr>title = ''Finalizing Answer'',
                 data = ''Composing and presenting the final answer.''\<rparr>,
           True)
      | None \<Rightarrow> (None, False)))))"

text \<open>
  \<open>onUpdateEvent\<close>: the branch taken may set the ref; a record, when there is one, is
  appended by \<open>setProcessedEventsTimeline((prev) => [...prev, record])\<close>, which allocates
  a new array and stores its reference.
\<close>

definition onUpdateEvent :: "update_event \<Rightarrow> app_state \<Rightarrow> app_state" where
  "onUpdateEvent event s =
     (let (processedEvent, finalize) = processEvent event;
          s1 = (if finalize then s\<lparr>hasFinalizeEventOccurredRef := True\<rparr> else s)
      in case processedEvent of
           None \<Rightarrow> s1
         | Some pe \<Rightarrow>
             s1\<lparr>arrays := arrays s1 @ [arrays s1 ! processedEventsTimeline s1 @ [pe]],
                processedEventsTimeline := length (arrays s1)\<rparr>)"

text \<open>
  The effect that archives the timeline (the specification calls it \<open>onStreamSettled\<close>).
  It runs when \<open>thread.messages\<close>, \<open>thread.isLoading\<close> or the timeline change; the two
  values of the thread are its arguments. \<open>lastMessage.id\<close> is tested for truthiness:
  an absent and an empty identity are both falsy. The archived array is the copy
  \<open>[...processedEventsTimeline]\<close>, a new array.
\<close>

definition truthy_id :: "Message \<Rightarrow> bool" where
  "truthy_id m = (case msg_id m of None \<Rightarrow> False | Some i \<Rightarrow> i \<noteq> [])"

definition archive_effect :: "Message list \<Rightarrow> bool \<Rightarrow> app_state \<Rightarrow> app_state" where
  "archive_effect thread_messages isLoading s =
     (if hasFinalizeEventOccurredRef s \<and> \<not> isLoading \<and> length thread_messages > 0 then
        (let lastMessage = thread_messages ! (length thread_messages - 1);
             s1 = (if msg_type lastMessage = ''ai'' \<and> truthy_id lastMessage then
                     s\<lparr>arrays := arrays s @ [arrays s ! processedEventsTimeline s],
                       historicalActivities :=
                         (historicalActivities s)(the (msg_id lastMessage) \<mapsto> length (arrays s))\<rparr>
                   else s)
         in s1\<lparr>hasFinalizeEventOccurredRef := False\<rparr>)
      else s)"

text \<open>
  \<open>handleSubmit\<close>. \<open>thread.messages\<close> (an array, so \<open>thread.messages || []\<close> is the
  array itself) and the clock \<open>Date.now()\<close> are arguments; the result is the new state
  and the payload passed to \<open>thread.submit\<close>, if any. The handler returns at once when
  the trimmed input is empty. \<open>setProcessedEventsTimeline([])\<close> stores a new empty
  array. \<open>backgroundContext\<close> is tested for truthiness: \<open>null\<close> and the empty string
  are both falsy. The \<open>switch\<close> on the effort has no default case and leaves both
  counts at 0.
\<close>

definition handleSubmit ::
  "Message list \<Rightarrow> nat \<Rightarrow> string \<Rightarrow> string \<Rightarrow> string \<Rightarrow> app_state
     \<Rightarrow> app_state \<times> submit_payload option" where
  "handleSubmit thread_messages now submittedInputValue effort model s =
     (if trim submittedInputValue = [] then (s, None)
      else
        (let s1 = s\<lparr>arrays := arrays s @ [[]],
                    processedEventsTimeline := length (arrays s),
                    hasFinalizeEventOccurredRef := False\<rparr>;
             combinedInput =
               (case backgroundContext s of
                  None \<Rightarrow> submittedInputValue
                | Some c \<Rightarrow>
                    if c = [] then submittedInputValue
                    else ''Background Context:'' @ [CHR 0x0A] @ c @ [CHR 0x0A, CHR 0x0A]
                         @ ''User Query:'' @ [CHR 0x0A] @ submittedInputValue);
             (count, loops) =
               (if effort = ''low'' then (1, 1)
                else if effort = ''medium'' then (3, 3)
                else if effort = ''high'' then (5, 10)
                else (0, 0));
             newMessages = thread_messages
               @ [\<lparr>msg_type = ''human'', content = combinedInput,
                    msg_id = Some (string_of_nat now)\<rparr>]
         in (s1, Some \<lparr>messages = newMessages, initial_search_query_count = count,
                       max_research_loops = loops, reasoning_model = model\<rparr>)))"

text \<open>
  The callback \<open>onSendToCopilot\<close> of the two widgets is \<open>setBackgroundContext\<close>;
  \<open>clearBackgroundContext\<close> sets the context to \<open>null\<close>.
\<close>

definition setBackgroundContext :: "string \<Rightarrow> app_state \<Rightarrow> app_state" where
  "setBackgroundContext c s = s\<lparr>backgroundContext := Some c\<rparr>"

definition clearBackgroundContext :: "app_state \<Rightarrow> app_state" where
  "clearBackgroundContext s = s\<lparr>backgroundContext := None\<rparr>"

section \<open>Runs of the component\<close>

text \<open>
  Everything that can happen to the state: an update notification, a run of the archive
  effect, a submission, a widget handing over a context, the user clearing it.
\<close>

datatype action =
    Update update_event
  | Settled "Message list" bool
  | Submit "Message list" nat string string string
  | SendToCopilot string
  | ClearContext

fun step :: "app_state \<Rightarrow> action \<Rightarrow> app_state" where
  "step s (Update e) = onUpdateEvent e s"
| "step s (Settled ms l) = archive_effect ms l s"
| "step s (Submit ms now inp eff mdl) = fst (handleSubmit ms now inp eff mdl s)"
| "step s (SendToCopilot c) = setBackgroundContext c s"
| "step s ClearContext = clearBackgroundContext s"

definition run :: "app_state \<Rightarrow> action list \<Rightarrow> app_state" where
  "run s acts = foldl step s acts"

text \<open>
  The archive effect writes an entry exactly when all its guards hold; an update
  notification classifies a finalize phase exactly when its branch sets the ref.
\<close>

definition archive_fires :: "Message list \<Rightarrow> bool \<Rightarrow> app_state \<Rightarrow> bool" where
  "archive_fires ms l s \<longleftrightarrow>
     hasFinalizeEventOccurredRef s \<and> \<not> l \<and> ms \<noteq> []
     \<and> msg_type (last ms) = ''ai'' \<and> truthy_id (last ms)"

fun archive_count :: "app_state \<Rightarrow> action list \<Rightarrow> nat" where
  "archive_count s [] = 0"
| "archive_count s (a # acts) =
     (case a of Settled ms l \<Rightarrow> (if archive_fires ms l s then 1 else 0) | _ \<Rightarrow> 0)
     + archive_count (step s a) acts"

fun finalize_count :: "action list \<Rightarrow> nat" where
  "finalize_count [] = 0"
| "finalize_count (a # acts) =
     (case a of Update e \<Rightarrow> (if snd (processEvent e) then 1 else 0) | _ \<Rightarrow> 0)
     + finalize_count acts"

text \<open>
  An update notification as the component processes it. \<open>processedEventsTimeline\<close> is
  in the dependency array of the archive effect, so when \<open>onUpdateEvent\<close> has appended a
  record (the state hook holds a new array) the effect runs again, with the messages
  and the loading flag the thread has then; when no record was appended nothing
  changed and the effect does not run. \<open>notify_all\<close> processes a list of notifications,
  each with the values of the thread at its time. In terms of \<open>run\<close>, a notification
  is an \<open>Update\<close> step followed, when a record was appended, by a \<open>Settled\<close> step
  (lemma \<open>notify_run\<close>).
\<close>

definition notify :: "update_event \<Rightarrow> Message list \<Rightarrow> bool \<Rightarrow> app_state \<Rightarrow> app_state" where
  "notify event thread_messages isLoading s =
     (let s1 = onUpdateEvent event s
      in if processedEventsTimeline s1 = processedEventsTimeline s then s1
         else archive_effect thread_messages isLoading s1)"


fun changes_context :: "action \<Rightarrow> bool" where
  "changes_context (SendToCopilot c) = True"
| "changes_context ClearContext = True"
| "changes_context _ = False"

section \<open>Notions of the specification\<close>

text \<open>The four recognised phases, in the order the classifier tests them.\<close>

datatype phase = GenerateQuery | WebResearch | Reflection | FinalizeAnswer

definition carried_phases :: "update_event \<Rightarrow> phase list" where
  "carried_phases e =
     (if generate_query e \<noteq> None then [GenerateQuery] else [])
     @ (if web_research e \<noteq> None then [WebResearch] else [])
     @ (if reflection e \<noteq> None then [Reflection] else [])
     @ (if finalize_answer e \<noteq> None then [FinalizeAnswer] else [])"

fun phase_title :: "phase \<Rightarrow> string" where
  "phase_title GenerateQuery = ''Generating Search Queries''"
| "phase_title WebResearch = ''Web Research''"
| "phase_title Reflection = ''Reflection''"
| "phase_title FinalizeAnswer = ''Finalizing Answer''"

text \<open>The notification that keeps only the payload of one phase.\<close>

fun only_phase :: "update_event \<Rightarrow> phase \<Rightarrow> update_event" where
  "only_phase e GenerateQuery = e\<lparr>web_research := None, reflection := None, finalize_answer := None\<rparr>"
| "only_phase e WebResearch = e\<lparr>generate_query := None, reflection := None, finalize_answer := None\<rparr>"
| "only_phase e Reflection = e\<lparr>generate_query := None, web_research := None, finalize_answer := None\<rparr>"
| "only_phase e FinalizeAnswer = e\<lparr>generate_query := None, web_research := None, reflection := None\<rparr>"

text \<open>
  The distinct elements of a list in the order of their first occurrence: the element
  at position \<open>i\<close> is kept when it does not occur before \<open>i\<close>.
\<close>

definition first_occurrences :: "'a list \<Rightarrow> 'a list" where
  "first_occurrences xs =
     map (\<lambda>i. xs ! i) (filter (\<lambda>i. xs ! i \<notin> set (take i xs)) [0..<length xs])"

text \<open>The labels of a source list that are present and not empty, in order.\<close>

definition nonempty_labels :: "source list \<Rightarrow> string list" where
  "nonempty_labels srcs = filter (\<lambda>l. l \<noteq> []) (concat (map (\<lambda>s. case label s of None \<Rightarrow> [] | Some l \<Rightarrow> [l]) srcs))"

text \<open>The number that a string of decimal digits denotes.\<close>

definition decimal_value :: "string \<Rightarrow> nat" where
  "decimal_value ds = foldl (\<lambda>acc c. 10 * acc + (of_char c - 48)) 0 ds"

text \<open>The effort table of the submission composer.\<close>

definition effort_table :: "string \<Rightarrow> nat \<times> nat" where
  "effort_table effort =
     (case List.find (\<lambda>(name, v). name = effort)
             [(''low'', (1, 1)), (''medium'', (3, 3)), (''high'', (5, 10))] of
        Some (name, v) \<Rightarrow> v
      | None \<Rightarrow> (0, 0))"

definition composed_text :: "string option \<Rightarrow> string \<Rightarrow> string" where
  "composed_text ctx inp =
     (case ctx of
        None \<Rightarrow> inp
      | Some c \<Rightarrow> (if c = [] then inp
                   else concat [''Background Context:'', [CHR 0x0A], c, [CHR 0x0A], [CHR 0x0A],
                                ''User Query:'', [CHR 0x0A], inp]))"

section \<open>Example inputs\<close>

text \<open>
  A notification of the finalize phase, an assistant reply with a given identity, and
  the state reached from the initial one by a submission and that notification.
\<close>

definition finalize_event :: update_event where
  "finalize_event =
     \<lparr>generate_query = None, web_research = None, reflection = None,
      finalize_answer = Some ()\<rparr>"

definition reply :: "string \<Rightarrow> Message" where
  "reply i = \<lparr>msg_type = ''ai'', content = ''answer'', msg_id = Some i\<rparr>"

definition after_finalize :: app_state where
  "after_finalize = run init_state [Submit [] 0 ''Q'' ''low'' ''m'', Update finalize_event]"

text \<open>
  The source list of the specification's example (labels A, A, B, C, D), a web research
  notification carrying it, and the same notification carrying a query generation
  payload as well.
\<close>

definition sources_AABCD :: "source list" where
  "sources_AABCD =
     [\<lparr>label = Some ''A''\<rparr>, \<lparr>label = Some ''A''\<rparr>, \<lparr>label = Some ''B''\<rparr>,
      \<lparr>label = Some ''C''\<rparr>, \<lparr>label = Some ''D''\<rparr>]"

definition research_event :: update_event where
  "research_event =
     \<lparr>generate_query = None,
      web_research = Some \<lparr>sources_gathered = Some sources_AABCD\<rparr>,
      reflection = None, finalize_answer = None\<rparr>"

definition query_and_research_event :: update_event where
  "query_and_research_event =
     \<lparr>generate_query = Some \<lparr>search_query = Some [''q'']\<rparr>,
      web_research = Some \<lparr>sources_gathered = Some sources_AABCD\<rparr>,
      reflection = None, finalize_answer = None\<rparr>"

text \<open>
  A notification with none of the four keys, a reflection notification, and a
  notification that carries a reflection and a finalize payload together.
\<close>

definition unrecognised_event :: update_event where
  "unrecognised_event =
     \<lparr>generate_query = None, web_research = None, reflection = None,
      finalize_answer = None\<rparr>"


definition reflection_and_finalize_event :: update_event where
  "reflection_and_finalize_event =
     \<lparr>generate_query = None, web_research = None, reflection = Some (),
      finalize_answer = Some ()\<rparr>"

section \<open>Library lemmas\<close>

lemma dropWhile_all_iff: "(\<forall>x \<in> set (dropWhile P xs). P x) \<longleftrightarrow> (\<forall>x \<in> set xs. P x)"
proof
  assume a: "\<forall>x \<in> set (dropWhile P xs). P x"
  have "dropWhile P xs = []"
  proof (rule ccontr)
    assume n: "dropWhile P xs \<noteq> []"
    then have "\<not> P (hd (dropWhile P xs))" by (rule hd_dropWhile)
    moreover have "hd (dropWhile P xs) \<in> set (dropWhile P xs)" using n by simp
    ultimately show False using a by blast
  qed
  then show "\<forall>x \<in> set xs. P x" by (simp add: dropWhile_eq_Nil_conv)
next
  assume "\<forall>x \<in> set xs. P x"
  then show "\<forall>x \<in> set (dropWhile P xs). P x" by (meson set_dropWhileD)
qed

lemma trim_empty_iff: "trim s = [] \<longleftrightarrow> (\<forall>c \<in> set s. is_whitespace c)"
  by (simp add: trim_def dropWhile_all_iff)

lemma first_occurrences_snoc:
  "first_occurrences (xs @ [x]) = first_occurrences xs @ (if x \<in> set xs then [] else [x])"
proof -
  let ?P = "\<lambda>i. (xs @ [x]) ! i \<notin> set (take i (xs @ [x]))"
  have A: "filter ?P [0..<length xs] = filter (\<lambda>i. xs ! i \<notin> set (take i xs)) [0..<length xs]"
    by (rule filter_cong) (auto simp: nth_append)
  have B: "map (\<lambda>i. (xs @ [x]) ! i) (filter Q [0..<length xs])
         = map (\<lambda>i. xs ! i) (filter Q [0..<length xs])" for Q
    by (rule map_cong) (auto simp: nth_append)
  have "first_occurrences (xs @ [x])
      = map (\<lambda>i. (xs @ [x]) ! i) (filter ?P ([0..<length xs] @ [length xs]))"
    by (simp add: first_occurrences_def)
  also have "\<dots> = map (\<lambda>i. (xs @ [x]) ! i) (filter ?P [0..<length xs])
                   @ (if x \<in> set xs then [] else [x])"
    by simp
  also have "\<dots> = first_occurrences xs @ (if x \<in> set xs then [] else [x])"
    unfolding A B first_occurrences_def ..
  finally show ?thesis .
qed

lemma set_new_Set_aux: "set (foldl set_add acc xs) = set acc \<union> set xs"
  by (induction xs arbitrary: acc) (auto simp: set_add_def)

lemma new_Set_snoc: "new_Set (xs @ [x]) = set_add (new_Set xs) x"
  by (simp add: new_Set_def)

lemma set_new_Set: "set (new_Set xs) = set xs"
  by (simp add: new_Set_def set_new_Set_aux)

lemma new_Set_first_occurrences: "new_Set xs = first_occurrences xs"
proof (induction xs rule: rev_induct)
  case Nil
  show ?case by (simp add: new_Set_def first_occurrences_def)
next
  case (snoc x xs)
  have "new_Set (xs @ [x]) = (if x \<in> set xs then new_Set xs else new_Set xs @ [x])"
    by (simp add: new_Set_snoc set_add_def set_new_Set)
  then show ?case
    by (simp add: snoc.IH first_occurrences_snoc)
qed

lemma filter_Boolean_eq: "filter_Boolean (map label srcs) = nonempty_labels srcs"
  unfolding nonempty_labels_def
proof (induction srcs)
  case Nil show ?case by simp
next
  case (Cons s srcs)
  then show ?case by (cases "label s") auto
qed

lemma js_join_Nil_iff: "\<forall>x \<in> set xs. x \<noteq> [] \<Longrightarrow> js_join sep xs = [] \<longleftrightarrow> xs = []"
  by (induction sep xs rule: js_join.induct) auto

lemma nonempty_labels_nonempty: "\<forall>l \<in> set (nonempty_labels srcs). l \<noteq> []"
  by (simp add: nonempty_labels_def)

lemma of_char_digit_char: "d < 10 \<Longrightarrow> (of_char (digit_char d) :: nat) = 48 + d"
  by (simp add: digit_char_def)

lemma decimal_value_snoc: "decimal_value (ds @ [c]) = 10 * decimal_value ds + (of_char c - 48)"
  by (simp add: decimal_value_def)

lemma decimal_value_string_of_nat: "decimal_value (string_of_nat n) = n"
proof (induction n rule: string_of_nat.induct)
  case (1 n)
  show ?case
  proof (cases "n < 10")
    case True
    then show ?thesis
      by (simp add: string_of_nat.simps [of n] decimal_value_def of_char_digit_char)
  next
    case False
    then have "decimal_value (string_of_nat (n div 10)) = n div 10"
      using "1.IH" by simp
    then show ?thesis
      using False
      by (simp add: string_of_nat.simps [of n] decimal_value_snoc of_char_digit_char)
  qed
qed

lemma first_occurrences_subset: "set (first_occurrences xs) = set xs"
  by (simp add: new_Set_first_occurrences [symmetric] set_new_Set)

lemma first_occurrences_Nil_iff: "first_occurrences xs = [] \<longleftrightarrow> xs = []"
  by (metis first_occurrences_subset set_empty)

lemma distinct_new_Set_aux: "distinct acc \<Longrightarrow> distinct (foldl set_add acc xs)"
  by (induction xs arbitrary: acc) (auto simp: set_add_def)

lemma distinct_first_occurrences: "distinct (first_occurrences xs)"
  by (simp add: new_Set_first_occurrences [symmetric] new_Set_def distinct_new_Set_aux)

section \<open>The array store and the references into it\<close>

lemma wf_init: "wf init_state"
  by (simp add: wf_def init_state_def)







lemma wf_onUpdateEvent: "wf s \<Longrightarrow> wf (onUpdateEvent e s)"
  by (auto simp: wf_def onUpdateEvent_def Let_def less_Suc_eq split: prod.splits option.splits)

lemma wf_archive_effect: "wf s \<Longrightarrow> wf (archive_effect ms l s)"
  by (auto simp: wf_def archive_effect_def Let_def less_Suc_eq ran_def split: if_splits)

lemma wf_handleSubmit: "wf s \<Longrightarrow> wf (fst (handleSubmit tm now inp eff mdl s))"
  by (auto simp: wf_def handleSubmit_def Let_def less_Suc_eq split: prod.splits)

lemma wf_step: "wf s \<Longrightarrow> wf (step s a)"
  by (cases a)
     (simp_all add: wf_onUpdateEvent wf_archive_effect wf_handleSubmit,
      simp_all add: wf_def setBackgroundContext_def clearBackgroundContext_def)

lemma wf_run: "wf s \<Longrightarrow> wf (run s acts)"
  by (induction acts arbitrary: s) (simp_all add: run_def wf_step)

lemma archive_effect_fires:
  "archive_fires ms l s \<Longrightarrow>
   archive_effect ms l s =
     s\<lparr>arrays := arrays s @ [arrays s ! processedEventsTimeline s],
       historicalActivities :=
         (historicalActivities s)(the (msg_id (last ms)) \<mapsto> length (arrays s)),
       hasFinalizeEventOccurredRef := False\<rparr>"
  by (auto simp: archive_fires_def archive_effect_def Let_def last_conv_nth)

lemma archive_effect_latch_clear:
  "\<not> hasFinalizeEventOccurredRef s \<Longrightarrow> archive_effect ms l s = s"
  by (simp add: archive_effect_def)

section \<open>The latch and the archive effect\<close>

lemma after_finalize_eq:
  "after_finalize =
     \<lparr>arrays = [[], [], [\<lparr>title = ''Finalizing Answer'',
                            data = ''Composing and presenting the final answer.''\<rparr>]],
      processedEventsTimeline = 2, historicalActivities = Map.empty,
      backgroundContext = None, hasFinalizeEventOccurredRef = True\<rparr>"
  by (simp add: after_finalize_def run_def init_state_def handleSubmit_def trim_def
      is_whitespace_def onUpdateEvent_def processEvent_def finalize_event_def Let_def)


lemma latch_archive_effect: "hasFinalizeEventOccurredRef (archive_effect ms l s) \<Longrightarrow> hasFinalizeEventOccurredRef s"
  by (auto simp: archive_effect_def Let_def split: if_splits)

lemma latch_onUpdateEvent:
  "hasFinalizeEventOccurredRef (onUpdateEvent e s)
   \<longleftrightarrow> hasFinalizeEventOccurredRef s \<or> snd (processEvent e)"
  by (auto simp: onUpdateEvent_def Let_def split: prod.splits option.splits)

lemma latch_handleSubmit:
  "hasFinalizeEventOccurredRef (fst (handleSubmit tm now inp eff mdl s))
   \<Longrightarrow> hasFinalizeEventOccurredRef s"
  by (auto simp: handleSubmit_def Let_def split: prod.splits if_splits)

lemma archive_fires_clears:
  "archive_fires ms l s \<Longrightarrow> \<not> hasFinalizeEventOccurredRef (archive_effect ms l s)"
  by (simp add: archive_effect_fires)

text \<open>
  The archive effect writes at most one entry for each finalize phase classified: along
  any run, the entries written are bounded by the notifications that set the ref, plus
  one when the ref is set at the start.
\<close>

lemma archive_count_le:
  "archive_count s acts
   \<le> (if hasFinalizeEventOccurredRef s then 1 else 0) + finalize_count acts"
proof (induction acts arbitrary: s)
  case Nil
  show ?case by simp
next
  case (Cons a acts)
  show ?case
  proof (cases a)
    case (Update e)
    then show ?thesis
      using Cons.IH [of "onUpdateEvent e s"] by (auto simp: latch_onUpdateEvent split: if_splits)
  next
    case (Settled ms l)
    show ?thesis
    proof (cases "archive_fires ms l s")
      case True
      then have "hasFinalizeEventOccurredRef s" by (simp add: archive_fires_def)
      with True Settled show ?thesis
        using Cons.IH [of "archive_effect ms l s"] by (simp add: archive_fires_clears)
    next
      case False
      with Settled show ?thesis
        using Cons.IH [of "archive_effect ms l s"] latch_archive_effect [of ms l s]
        by (auto split: if_splits)
    qed
  next
    case (Submit tm now inp eff mdl)
    then show ?thesis
      using Cons.IH [of "fst (handleSubmit tm now inp eff mdl s)"]
        latch_handleSubmit [of tm now inp eff mdl s]
      by (auto split: if_splits)
  next
    case (SendToCopilot c)
    then show ?thesis
      using Cons.IH [of "setBackgroundContext c s"] by (simp add: setBackgroundContext_def)
  next
    case ClearContext
    then show ?thesis
      using Cons.IH [of "clearBackgroundContext s"] by (simp add: clearBackgroundContext_def)
  qed
qed

section \<open>C1: the archive sequence\<close>

text \<open>
  Claim C1, as amended. In every well-formed state in which a finalize phase has been
  classified (the ref is set), a run of the archive effect with \<open>isLoading\<close> false, a non-empty
  message list and a last message of type \<open>ai\<close> with a non-empty identity \<open>m1\<close> leaves
  \<open>historicalActivities\<close> with the key \<open>m1\<close> mapped to the contents of the live timeline
  at that moment and leaves the ref cleared. The live timeline itself is not emptied:
  it keeps its contents (only \<open>handleSubmit\<close> empties it).
\<close>

theorem archive_sequence_amended:
  assumes "wf s" and "hasFinalizeEventOccurredRef s" and "\<not> isLoading" and "ms \<noteq> []"
    and "msg_type (last ms) = ''ai''" and "msg_id (last ms) = Some m1" and "m1 \<noteq> []"
  shows "historicalTimeline (archive_effect ms isLoading s) m1 = Some (liveTimeline s)
       \<and> liveTimeline (archive_effect ms isLoading s) = liveTimeline s
       \<and> \<not> hasFinalizeEventOccurredRef (archive_effect ms isLoading s)"
proof -
  have f: "archive_fires ms isLoading s"
    using assms by (simp add: archive_fires_def truthy_id_def)
  have t: "processedEventsTimeline s < length (arrays s)"
    using assms(1) by (simp add: wf_def)
  show ?thesis
    using t assms(6)
    by (simp add: archive_effect_fires [OF f] historicalTimeline_def liveTimeline_def nth_append)
qed

text \<open>
  The theorem at the state reached by a submission and a finalize notification, with
  the reply \<open>m1\<close> as last message.
\<close>

theorem archive_sequence_amended_witness:
  "wf after_finalize
   \<and> hasFinalizeEventOccurredRef after_finalize
   \<and> [reply ''m1''] \<noteq> []
   \<and> msg_type (last [reply ''m1'']) = ''ai''
   \<and> msg_id (last [reply ''m1'']) = Some ''m1''
   \<and> historicalTimeline (archive_effect [reply ''m1''] False after_finalize) ''m1''
       = Some [\<lparr>title = ''Finalizing Answer'',
                 data = ''Composing and presenting the final answer.''\<rparr>]
   \<and> liveTimeline (archive_effect [reply ''m1''] False after_finalize)
       = [\<lparr>title = ''Finalizing Answer'',
            data = ''Composing and presenting the final answer.''\<rparr>]
   \<and> \<not> hasFinalizeEventOccurredRef (archive_effect [reply ''m1''] False after_finalize)"
proof -
  have w: "wf after_finalize"
    by (simp add: after_finalize_eq wf_def)
  have h: "hasFinalizeEventOccurredRef after_finalize"
    by (simp add: after_finalize_eq)
  have m: "msg_type (last [reply ''m1'']) = ''ai''" "msg_id (last [reply ''m1'']) = Some ''m1''"
    by (simp_all add: reply_def)
  have l: "liveTimeline after_finalize
           = [\<lparr>title = ''Finalizing Answer'',
                data = ''Composing and presenting the final answer.''\<rparr>]"
    by (simp add: after_finalize_eq liveTimeline_def)
  show ?thesis
    using archive_sequence_amended [of after_finalize False "[reply ''m1'']" "''m1''"] w h m l
    by simp
qed

text \<open>
  Claim C1 as stated asks for an empty live timeline after the archive. In the same
  state the hypotheses of the claim hold and its conclusion does not: the live timeline
  still holds the record of the finalize phase.
\<close>

theorem archive_sequence_counterexample:
  "hasFinalizeEventOccurredRef after_finalize
   \<and> [reply ''m1''] \<noteq> []
   \<and> msg_type (last [reply ''m1'']) = ''ai''
   \<and> msg_id (last [reply ''m1'']) = Some ''m1''
   \<and> \<not> (historicalTimeline (archive_effect [reply ''m1''] False after_finalize) ''m1''
            = Some (liveTimeline after_finalize)
          \<and> liveTimeline (archive_effect [reply ''m1''] False after_finalize) = []
          \<and> \<not> hasFinalizeEventOccurredRef (archive_effect [reply ''m1''] False after_finalize))"
  by (simp add: after_finalize_eq reply_def archive_effect_def truthy_id_def liveTimeline_def Let_def)

section \<open>C2: at most one archive\<close>

lemma hist_onUpdateEvent: "historicalActivities (onUpdateEvent e s) = historicalActivities s"
  by (simp add: onUpdateEvent_def Let_def split: prod.splits option.splits)

lemma hist_handleSubmit:
  "historicalActivities (fst (handleSubmit tm now inp eff mdl s)) = historicalActivities s"
  by (simp add: handleSubmit_def Let_def split: prod.splits)

lemma quiet_run:
  "\<not> hasFinalizeEventOccurredRef s \<Longrightarrow> finalize_count acts = 0 \<Longrightarrow>
   historicalActivities (run s acts) = historicalActivities s
   \<and> \<not> hasFinalizeEventOccurredRef (run s acts)"
proof (induction acts arbitrary: s)
  case Nil
  then show ?case by (simp add: run_def)
next
  case (Cons a acts)
  have r: "run s (a # acts) = run (step s a) acts" by (simp add: run_def)
  have "historicalActivities (step s a) = historicalActivities s
        \<and> \<not> hasFinalizeEventOccurredRef (step s a)"
  proof (cases a)
    case (Update e)
    with Cons.prems show ?thesis
      by (simp add: hist_onUpdateEvent latch_onUpdateEvent split: if_splits)
  next
    case (Settled ms l)
    with Cons.prems show ?thesis by (simp add: archive_effect_latch_clear)
  next
    case (Submit tm now inp eff mdl)
    with Cons.prems show ?thesis
      using latch_handleSubmit [of tm now inp eff mdl s] by (auto simp: hist_handleSubmit)
  next
    case (SendToCopilot c)
    with Cons.prems show ?thesis by (simp add: setBackgroundContext_def)
  next
    case ClearContext
    with Cons.prems show ?thesis by (simp add: clearBackgroundContext_def)
  qed
  moreover have "finalize_count acts = 0" using Cons.prems(2) by simp
  ultimately show ?case using Cons.IH [of "step s a"] r by simp
qed

lemma latch_after_submit:
  "trim inp \<noteq> [] \<Longrightarrow> \<not> hasFinalizeEventOccurredRef (fst (handleSubmit tm now inp eff mdl s))"
  by (simp add: handleSubmit_def Let_def split: prod.splits)

lemma fires_after_finalize: "archive_fires [reply ''m1''] False after_finalize"
  by (simp add: archive_fires_def after_finalize_eq reply_def truthy_id_def)

lemma trim_Q: "trim ''Q'' \<noteq> []"
  by (simp add: trim_def is_whitespace_def)

lemma submitted_eq:
  "fst (handleSubmit [] 0 ''Q'' ''low'' ''m'' init_state) =
     \<lparr>arrays = [[], []], processedEventsTimeline = 1, historicalActivities = Map.empty,
      backgroundContext = None, hasFinalizeEventOccurredRef = False\<rparr>"
  by (simp add: handleSubmit_def init_state_def trim_Q Let_def)

text \<open>
  Claim C2, as amended. Once the archive effect has written an entry, running it again
  with the same messages and loading flag changes no state and does not fire, because
  the ref is clear; whatever happens next, as long as no further finalize phase is
  classified, nothing is archived and \<open>historicalActivities\<close> stays as it is. The
  effect archives at most once for each finalize phase classified: along every run
  the entries written are at most the finalize notifications classified (one more
  when the ref is set at the start), and in an exchange, which starts with a
  submission, at most the finalize notifications classified in it. Nothing bounds the
  entries of an exchange by one when the agent sends more than one finalize
  notification.
\<close>

theorem archive_at_most_once_amended:
  "(archive_fires ms l s \<longrightarrow>
      archive_effect ms l (archive_effect ms l s) = archive_effect ms l s
      \<and> \<not> archive_fires ms l (archive_effect ms l s)
      \<and> (finalize_count acts = 0 \<longrightarrow>
            archive_count (archive_effect ms l s) acts = 0
            \<and> historicalActivities (run (archive_effect ms l s) acts)
                = historicalActivities (archive_effect ms l s)))
   \<and> archive_count s acts
       \<le> (if hasFinalizeEventOccurredRef s then 1 else 0) + finalize_count acts
   \<and> (trim inp \<noteq> [] \<longrightarrow>
        archive_count (fst (handleSubmit tm now inp eff mdl s)) acts \<le> finalize_count acts)"
proof (intro conjI impI)
  assume f: "archive_fires ms l s"
  then have c: "\<not> hasFinalizeEventOccurredRef (archive_effect ms l s)"
    by (rule archive_fires_clears)
  from c show "archive_effect ms l (archive_effect ms l s) = archive_effect ms l s"
    by (rule archive_effect_latch_clear)
  from c show "\<not> archive_fires ms l (archive_effect ms l s)"
    by (simp add: archive_fires_def)
  assume q: "finalize_count acts = 0"
  show "archive_count (archive_effect ms l s) acts = 0"
    using archive_count_le [of "archive_effect ms l s" acts] c q by simp
  show "historicalActivities (run (archive_effect ms l s) acts)
        = historicalActivities (archive_effect ms l s)"
    using quiet_run [OF c q] by simp
next
  show "archive_count s acts
        \<le> (if hasFinalizeEventOccurredRef s then 1 else 0) + finalize_count acts"
    by (rule archive_count_le)
next
  assume a: "trim inp \<noteq> []"
  then have "\<not> hasFinalizeEventOccurredRef (fst (handleSubmit tm now inp eff mdl s))"
    by (simp add: latch_after_submit)
  then show "archive_count (fst (handleSubmit tm now inp eff mdl s)) acts \<le> finalize_count acts"
    using archive_count_le [of "fst (handleSubmit tm now inp eff mdl s)" acts] by simp
qed

text \<open>
  The theorem after the archive of the reply \<open>m1\<close>, and for the exchange that consists
  of a submission, one finalize notification and two runs of the effect.
\<close>

theorem archive_at_most_once_amended_witness:
  "archive_fires [reply ''m1''] False after_finalize
   \<and> finalize_count [Settled [reply ''m1''] False, Settled [] True] = 0
   \<and> archive_effect [reply ''m1''] False (archive_effect [reply ''m1''] False after_finalize)
       = archive_effect [reply ''m1''] False after_finalize
   \<and> archive_count (archive_effect [reply ''m1''] False after_finalize)
        [Settled [reply ''m1''] False, Settled [] True] = 0
   \<and> trim ''Q'' \<noteq> []
   \<and> finalize_count [Update finalize_event, Settled [reply ''m1''] False,
                       Settled [reply ''m1''] False] = 1
   \<and> archive_count (fst (handleSubmit [] 0 ''Q'' ''low'' ''m'' init_state))
        [Update finalize_event, Settled [reply ''m1''] False, Settled [reply ''m1''] False] \<le> 1"
proof -
  have q: "finalize_count [Settled [reply ''m1''] False, Settled [] True] = 0"
    by simp
  have c: "finalize_count [Update finalize_event, Settled [reply ''m1''] False,
                           Settled [reply ''m1''] False] = 1"
    by (simp add: processEvent_def finalize_event_def)
  have 1: "archive_effect [reply ''m1''] False (archive_effect [reply ''m1''] False after_finalize)
             = archive_effect [reply ''m1''] False after_finalize
           \<and> archive_count (archive_effect [reply ''m1''] False after_finalize)
                [Settled [reply ''m1''] False, Settled [] True] = 0"
    using archive_at_most_once_amended [of "[reply ''m1'']" False after_finalize
            "[Settled [reply ''m1''] False, Settled [] True]"]
          fires_after_finalize q
    by blast
  have 2: "archive_count (fst (handleSubmit [] 0 ''Q'' ''low'' ''m'' init_state))
             [Update finalize_event, Settled [reply ''m1''] False, Settled [reply ''m1''] False]
           \<le> 1"
    using archive_at_most_once_amended [of "[]" True init_state
            "[Update finalize_event, Settled [reply ''m1''] False, Settled [reply ''m1''] False]"
            "''Q''" "[]" 0 "''low''" "''m''"]
          trim_Q c
    by simp
  show ?thesis
    using fires_after_finalize q trim_Q c 1 2 by blast
qed

text \<open>
  Claim C2 as stated bounds the entries written in an exchange by one. In the exchange
  that consists of a submission and two finalize notifications, each followed by the
  run of the effect that the change of the timeline triggers while the thread is
  settled on the reply \<open>m1\<close>, the effect writes an entry twice.
\<close>

theorem archive_at_most_once_counterexample:
  "trim ''Q'' \<noteq> []
   \<and> archive_count (fst (handleSubmit [] 0 ''Q'' ''low'' ''m'' init_state))
        [Update finalize_event, Settled [reply ''m1''] False,
         Update finalize_event, Settled [reply ''m1''] False] = 2"
  by (simp add: trim_Q submitted_eq onUpdateEvent_def processEvent_def finalize_event_def
      archive_fires_def archive_effect_def reply_def truthy_id_def Let_def)

section \<open>C6: the archived timeline is a copy\<close>


lemma timeline_onUpdateEvent:
  "wf s \<Longrightarrow>
   processedEventsTimeline (onUpdateEvent e s) = processedEventsTimeline s
   \<longleftrightarrow> fst (processEvent e) = None"
  by (auto simp: wf_def onUpdateEvent_def Let_def split: prod.splits option.splits)

lemma notify_run:
  "wf s \<Longrightarrow>
   notify e ms l s = run s (if fst (processEvent e) = None then [Update e]
                            else [Update e, Settled ms l])"
  by (simp add: notify_def Let_def timeline_onUpdateEvent run_def)










section \<open>The classifier\<close>

lemma string_of_nat_0: "string_of_nat 0 = ''0''"
  by code_simp

lemma example_labels_empty_iff:
  "js_join '', '' (take 3 (first_occurrences (nonempty_labels srcs))) = []
   \<longleftrightarrow> nonempty_labels srcs = []"
proof -
  let ?u = "first_occurrences (nonempty_labels srcs)"
  have "\<forall>x \<in> set (take 3 ?u). x \<noteq> []"
    using nonempty_labels_nonempty [of srcs] first_occurrences_subset [of "nonempty_labels srcs"]
    by (metis in_set_takeD)
  then have "js_join '', '' (take 3 ?u) = [] \<longleftrightarrow> take 3 ?u = []"
    by (rule js_join_Nil_iff)
  then show ?thesis
    by (simp add: first_occurrences_Nil_iff)
qed

lemma nonempty_labels_AABCD: "nonempty_labels sources_AABCD = [''A'', ''A'', ''B'', ''C'', ''D'']"
  by (simp add: nonempty_labels_def sources_AABCD_def)

lemma first_occurrences_AABCD:
  "first_occurrences [''A'', ''A'', ''B'', ''C'', ''D''] = [''A'', ''B'', ''C'', ''D'']"
  by (simp add: new_Set_first_occurrences [symmetric] new_Set_def set_add_def)

lemma string_of_nat_5: "string_of_nat 5 = ''5''"
  by code_simp

lemma processEvent_none:
  "generate_query e = None \<Longrightarrow> web_research e = None \<Longrightarrow> reflection e = None \<Longrightarrow>
   finalize_answer e = None \<Longrightarrow> processEvent e = (None, False)"
  by (simp add: processEvent_def)

lemma onUpdateEvent_record:
  "processEvent e = (Some r, b) \<Longrightarrow>
   liveTimeline (onUpdateEvent e s) = liveTimeline s @ [r]
   \<and> hasFinalizeEventOccurredRef (onUpdateEvent e s) = (hasFinalizeEventOccurredRef s \<or> b)"
  by (simp add: onUpdateEvent_def liveTimeline_def Let_def)

lemma onUpdateEvent_no_record:
  "processEvent e = (None, False) \<Longrightarrow> onUpdateEvent e s = s"
  by (simp add: onUpdateEvent_def)

lemma processEvent_head:
  assumes "carried_phases e = p # ps"
  shows "\<exists>d. processEvent e = (Some \<lparr>title = phase_title p, data = d\<rparr>, p = FinalizeAnswer \<and> ps = [])
           \<and> processEvent (only_phase e p) = processEvent e"
proof (cases "generate_query e")
  case (Some gq)
  then have "p = GenerateQuery" using assms by (simp add: carried_phases_def)
  then show ?thesis using Some by (simp add: processEvent_def)
next
  case g: None
  show ?thesis
  proof (cases "web_research e")
    case (Some wr)
    then have "p = WebResearch" using assms g by (simp add: carried_phases_def)
    then show ?thesis using g Some by (simp add: processEvent_def Let_def)
  next
    case w: None
    show ?thesis
    proof (cases "reflection e")
      case (Some u)
      then have "p = Reflection" using assms g w by (simp add: carried_phases_def)
      then show ?thesis using g w Some by (simp add: processEvent_def)
    next
      case r: None
      show ?thesis
      proof (cases "finalize_answer e")
        case (Some u)
        then have "p = FinalizeAnswer \<and> ps = []" using assms g w r by (simp add: carried_phases_def)
        then show ?thesis using g w r Some by (simp add: processEvent_def)
      next
        case None
        then show ?thesis using assms g w r by (simp add: carried_phases_def)
      qed
    qed
  qed
qed

lemma carried_phases_Nil:
  "carried_phases e = [] \<Longrightarrow>
   generate_query e = None \<and> web_research e = None \<and> reflection e = None
   \<and> finalize_answer e = None"
  by (cases "generate_query e"; cases "web_research e"; cases "reflection e";
      cases "finalize_answer e"; simp add: carried_phases_def)

section \<open>C3: one record for one phase\<close>

text \<open>
  Claim C3. A notification that carries exactly one of the four phase keys (a key is
  carried when it has a payload, which is what the classifier tests) makes the
  classifier build exactly one record, whose title is the fixed title of that phase,
  and \<open>onUpdateEvent\<close> appends that one record to the live timeline. A notification
  that carries none of the four keys yields no record and leaves the whole state, the
  timeline and the ref included, as it was.
\<close>

theorem classifier_single_phase:
  "(carried_phases e = [p] \<longrightarrow>
      (\<exists>r. processEvent e = (Some r, p = FinalizeAnswer)
           \<and> title r = phase_title p
           \<and> liveTimeline (onUpdateEvent e s) = liveTimeline s @ [r]))
   \<and> (carried_phases e = [] \<longrightarrow>
        fst (processEvent e) = None \<and> onUpdateEvent e s = s)"
proof (intro conjI impI)
  assume "carried_phases e = [p]"
  then obtain d where
    "processEvent e = (Some \<lparr>title = phase_title p, data = d\<rparr>, p = FinalizeAnswer)"
    using processEvent_head [of e p "[]"] by auto
  then show "\<exists>r. processEvent e = (Some r, p = FinalizeAnswer)
           \<and> title r = phase_title p
           \<and> liveTimeline (onUpdateEvent e s) = liveTimeline s @ [r]"
    using onUpdateEvent_record [of e _ _ s] by auto
next
  assume n: "carried_phases e = []"
  then have "processEvent e = (None, False)"
    using carried_phases_Nil [of e] by (simp add: processEvent_none)
  then show "fst (processEvent e) = None" "onUpdateEvent e s = s"
    by (simp_all add: onUpdateEvent_no_record)
qed

text \<open>The theorem at a finalize notification and at a notification with no phase key.\<close>

theorem classifier_single_phase_witness:
  "carried_phases finalize_event = [FinalizeAnswer]
   \<and> processEvent finalize_event
       = (Some \<lparr>title = ''Finalizing Answer'',
                data = ''Composing and presenting the final answer.''\<rparr>, True)
   \<and> liveTimeline (onUpdateEvent finalize_event init_state)
       = liveTimeline init_state
         @ [\<lparr>title = ''Finalizing Answer'',
              data = ''Composing and presenting the final answer.''\<rparr>]
   \<and> carried_phases unrecognised_event = []
   \<and> fst (processEvent unrecognised_event) = None
   \<and> onUpdateEvent unrecognised_event init_state = init_state"
proof -
  have c: "carried_phases finalize_event = [FinalizeAnswer]"
    by (simp add: carried_phases_def finalize_event_def)
  have n: "carried_phases unrecognised_event = []"
    by (simp add: carried_phases_def unrecognised_event_def)
  have p: "processEvent finalize_event
       = (Some \<lparr>title = ''Finalizing Answer'',
                data = ''Composing and presenting the final answer.''\<rparr>, True)"
    by (simp add: processEvent_def finalize_event_def)
  show ?thesis
    using classifier_single_phase [of finalize_event FinalizeAnswer init_state]
          classifier_single_phase [of unrecognised_event FinalizeAnswer init_state]
          c n p
    by auto
qed

section \<open>C4: the summary of a web research notification\<close>

text \<open>
  Claim C4, as amended. For a notification that carries the web research key and no
  query generation key: with a source list, the data of the record reports the number
  of sources and the first three distinct non-empty labels in the order of their first
  occurrence, joined by a comma and a space, or N/A when no label is non-empty; without
  a source list it reports 0 sources and N/A. The count is printed in decimal
  (\<open>decimal_value_string_of_nat\<close>); \<open>first_occurrences\<close> has no duplicates and the same
  elements as the list (\<open>distinct_first_occurrences\<close>, \<open>first_occurrences_subset\<close>).
\<close>

theorem web_research_summary_amended:
  assumes "generate_query e = None" and "web_research e = Some wr"
  shows "(sources_gathered wr = Some srcs \<longrightarrow>
            processEvent e =
              (Some \<lparr>title = ''Web Research'',
                     data = ''Gathered '' @ string_of_nat (length srcs)
                            @ '' sources. Related to: ''
                            @ (if nonempty_labels srcs = [] then ''N/A''
                               else js_join '', ''
                                      (take 3 (first_occurrences (nonempty_labels srcs))))
                            @ ''.''\<rparr>,
               False))
       \<and> (sources_gathered wr = None \<longrightarrow>
            processEvent e =
              (Some \<lparr>title = ''Web Research'',
                     data = ''Gathered 0 sources. Related to: N/A.''\<rparr>,
               False))"
proof (intro conjI impI)
  assume s: "sources_gathered wr = Some srcs"
  have "processEvent e =
          (Some \<lparr>title = ''Web Research'',
                 data = ''Gathered '' @ string_of_nat (length srcs)
                        @ '' sources. Related to: ''
                        @ (if js_join '', '' (take 3 (new_Set (filter_Boolean (map label srcs)))) = []
                           then ''N/A''
                           else js_join '', '' (take 3 (new_Set (filter_Boolean (map label srcs)))))
                        @ ''.''\<rparr>,
           False)"
    using assms s by (simp add: processEvent_def Let_def)
  then show "processEvent e =
          (Some \<lparr>title = ''Web Research'',
                 data = ''Gathered '' @ string_of_nat (length srcs)
                        @ '' sources. Related to: ''
                        @ (if nonempty_labels srcs = [] then ''N/A''
                           else js_join '', ''
                                  (take 3 (first_occurrences (nonempty_labels srcs))))
                        @ ''.''\<rparr>,
           False)"
    by (simp only: filter_Boolean_eq new_Set_first_occurrences example_labels_empty_iff)
next
  assume s: "sources_gathered wr = None"
  have "new_Set (filter_Boolean (map label [])) = ([] :: string list)"
    by (simp add: new_Set_def)
  then show "processEvent e =
          (Some \<lparr>title = ''Web Research'',
                 data = ''Gathered 0 sources. Related to: N/A.''\<rparr>,
           False)"
    using assms s by (simp add: processEvent_def Let_def string_of_nat_0)
qed

text \<open>
  The theorem at the example of the specification: the labels A, A, B, C, D give the
  count 5 and the label list A, B, C.
\<close>

theorem web_research_summary_amended_witness:
  "generate_query research_event = None
   \<and> web_research research_event = Some \<lparr>sources_gathered = Some sources_AABCD\<rparr>
   \<and> processEvent research_event =
       (Some \<lparr>title = ''Web Research'',
              data = ''Gathered 5 sources. Related to: A, B, C.''\<rparr>,
        False)"
proof -
  have g: "generate_query research_event = None"
    and w: "web_research research_event = Some \<lparr>sources_gathered = Some sources_AABCD\<rparr>"
    by (simp_all add: research_event_def)
  have n: "length sources_AABCD = 5"
    by (simp add: sources_AABCD_def)
  show ?thesis
    using web_research_summary_amended [OF g w, of sources_AABCD] g w
    by (simp add: n string_of_nat_5 nonempty_labels_AABCD first_occurrences_AABCD)
qed

text \<open>
  Claim C4 as stated speaks of every notification that carries the web research key.
  When the notification carries the query generation key too, the first branch of the
  chain is taken and the record is that of the query generation phase, not the summary.
\<close>

theorem web_research_summary_counterexample:
  "web_research query_and_research_event = Some \<lparr>sources_gathered = Some sources_AABCD\<rparr>
   \<and> fst (processEvent query_and_research_event)
       = Some \<lparr>title = ''Generating Search Queries'', data = ''q''\<rparr>
   \<and> fst (processEvent query_and_research_event)
       \<noteq> Some \<lparr>title = ''Web Research'',
                 data = ''Gathered 5 sources. Related to: A, B, C.''\<rparr>"
  by (simp add: query_and_research_event_def processEvent_def)

section \<open>C8: the precedence of the phases\<close>

text \<open>
  Claim C8. A notification that carries more than one of the four phase keys yields
  exactly one record: that of the first phase carried in the order query generation,
  web research, reflection, finalize (the record is the one the notification reduced
  to that phase alone would yield). The ref is not set: it keeps its value, also when
  the finalize key is among the keys carried.
\<close>

theorem classifier_precedence:
  assumes "length (carried_phases e) > 1"
  shows "\<exists>r. processEvent e = (Some r, False)
           \<and> title r = phase_title (hd (carried_phases e))
           \<and> processEvent e = processEvent (only_phase e (hd (carried_phases e)))
           \<and> liveTimeline (onUpdateEvent e s) = liveTimeline s @ [r]
           \<and> hasFinalizeEventOccurredRef (onUpdateEvent e s) = hasFinalizeEventOccurredRef s"
proof -
  obtain p q ps where c: "carried_phases e = p # q # ps"
    using assms by (cases "carried_phases e" rule: list.exhaust; simp; rename_tac x xs; case_tac xs; simp)
  then obtain d where
    "processEvent e = (Some \<lparr>title = phase_title p, data = d\<rparr>, False)"
    "processEvent (only_phase e p) = processEvent e"
    using processEvent_head [of e p "q # ps"] by auto
  then show ?thesis
    using onUpdateEvent_record [of e _ False s] c by auto
qed

text \<open>The theorem at a notification that carries a reflection and a finalize payload.\<close>

theorem classifier_precedence_witness:
  "length (carried_phases reflection_and_finalize_event) > 1
   \<and> hd (carried_phases reflection_and_finalize_event) = Reflection
   \<and> processEvent reflection_and_finalize_event
       = (Some \<lparr>title = ''Reflection'', data = ''Analysing Web Research Results''\<rparr>, False)
   \<and> liveTimeline (onUpdateEvent reflection_and_finalize_event init_state)
       = liveTimeline init_state
         @ [\<lparr>title = ''Reflection'', data = ''Analysing Web Research Results''\<rparr>]
   \<and> \<not> hasFinalizeEventOccurredRef (onUpdateEvent reflection_and_finalize_event init_state)"
proof -
  have c: "carried_phases reflection_and_finalize_event = [Reflection, FinalizeAnswer]"
    by (simp add: carried_phases_def reflection_and_finalize_event_def)
  have p: "processEvent reflection_and_finalize_event
       = (Some \<lparr>title = ''Reflection'', data = ''Analysing Web Research Results''\<rparr>, False)"
    by (simp add: processEvent_def reflection_and_finalize_event_def)
  have l: "\<not> hasFinalizeEventOccurredRef init_state"
    by (simp add: init_state_def)
  have g: "length (carried_phases reflection_and_finalize_event) > 1"
    by (simp add: c)
  show ?thesis
    using classifier_precedence [OF g, of init_state] c p l
    by auto
qed

section \<open>The submit handler\<close>

lemma effort_table_cases:
  "effort_table eff =
     (if eff = ''low'' then (1, 1) else if eff = ''medium'' then (3, 3)
      else if eff = ''high'' then (5, 10) else (0, 0))"
  by (simp add: effort_table_def)

lemma handleSubmit_blank:
  "trim inp = [] \<Longrightarrow> handleSubmit tm now inp eff mdl s = (s, None)"
  by (simp add: handleSubmit_def)

lemma handleSubmit_state:
  "trim inp \<noteq> [] \<Longrightarrow>
   fst (handleSubmit tm now inp eff mdl s)
     = s\<lparr>arrays := arrays s @ [[]], processedEventsTimeline := length (arrays s),
         hasFinalizeEventOccurredRef := False\<rparr>"
  by (simp add: handleSubmit_def Let_def split: prod.splits)

lemma context_handleSubmit:
  "backgroundContext (fst (handleSubmit tm now inp eff mdl s)) = backgroundContext s"
  by (cases "trim inp = []") (simp_all add: handleSubmit_blank handleSubmit_state)

lemma context_onUpdateEvent: "backgroundContext (onUpdateEvent e s) = backgroundContext s"
  by (simp add: onUpdateEvent_def Let_def split: prod.splits option.splits)

lemma context_archive_effect: "backgroundContext (archive_effect ms l s) = backgroundContext s"
  by (simp add: archive_effect_def Let_def)

lemma context_step: "\<not> changes_context a \<Longrightarrow> backgroundContext (step s a) = backgroundContext s"
  by (cases a) (simp_all add: context_onUpdateEvent context_archive_effect context_handleSubmit)

lemma context_run:
  "\<forall>a \<in> set acts. \<not> changes_context a \<Longrightarrow> backgroundContext (run s acts) = backgroundContext s"
proof (induction acts arbitrary: s)
  case Nil
  show ?case by (simp add: run_def)
next
  case (Cons a acts)
  have "run s (a # acts) = run (step s a) acts" by (simp add: run_def)
  then show ?case using Cons by (simp add: context_step)
qed

lemma handleSubmit_content:
  "trim inp \<noteq> [] \<Longrightarrow>
   \<exists>p. snd (handleSubmit tm now inp eff mdl s) = Some p
       \<and> content (last (messages p)) = composed_text (backgroundContext s) inp"
  by (simp add: handleSubmit_def Let_def composed_text_def split: prod.splits option.splits)

lemma nonblank_Q: "\<exists>c \<in> set ''Q''. \<not> is_whitespace c"
  by (simp add: is_whitespace_def)

lemma string_of_nat_42: "string_of_nat 42 = ''42''"
  by code_simp

lemma context_after_finalize:
  "setBackgroundContext ''C'' after_finalize =
     \<lparr>arrays = [[], [], [\<lparr>title = ''Finalizing Answer'',
                            data = ''Composing and presenting the final answer.''\<rparr>]],
      processedEventsTimeline = 2, historicalActivities = Map.empty,
      backgroundContext = Some ''C'', hasFinalizeEventOccurredRef = True\<rparr>"
  by (simp add: after_finalize_eq setBackgroundContext_def)

section \<open>C5: the payload of a submission\<close>

text \<open>
  Claim C5. For an input that is not blank, the payload handed to \<open>thread.submit\<close> has
  as messages the messages of the thread followed by one new human message, whose
  content is the input behind the preamble built from the background context when a
  context is present (not \<open>null\<close>, not empty) and the input verbatim otherwise; as
  query count and loop count the entry of the effort table, which is (1, 1) for low,
  (3, 3) for medium, (5, 10) for high and (0, 0) for any other string; and as reasoning
  model the model selected.
\<close>

theorem submission_payload:
  assumes "\<exists>c \<in> set inp. \<not> is_whitespace c"
  shows "snd (handleSubmit tm now inp eff mdl s) =
           Some \<lparr>messages = tm @ [\<lparr>msg_type = ''human'',
                                   content = composed_text (backgroundContext s) inp,
                                   msg_id = Some (string_of_nat now)\<rparr>],
                 initial_search_query_count = fst (effort_table eff),
                 max_research_loops = snd (effort_table eff),
                 reasoning_model = mdl\<rparr>
       \<and> (backgroundContext s = Some c \<and> c \<noteq> [] \<longrightarrow>
            composed_text (backgroundContext s) inp
              = ''Background Context:'' @ [CHR 0x0A] @ c @ [CHR 0x0A, CHR 0x0A]
                @ ''User Query:'' @ [CHR 0x0A] @ inp)
       \<and> (backgroundContext s = None \<or> backgroundContext s = Some [] \<longrightarrow>
            composed_text (backgroundContext s) inp = inp)
       \<and> effort_table ''low'' = (1, 1) \<and> effort_table ''medium'' = (3, 3)
       \<and> effort_table ''high'' = (5, 10)
       \<and> (eff \<notin> {''low'', ''medium'', ''high''} \<longrightarrow> effort_table eff = (0, 0))"
proof -
  have t: "trim inp \<noteq> []"
    using assms by (simp add: trim_empty_iff)
  have 1: "snd (handleSubmit tm now inp eff mdl s) =
           Some \<lparr>messages = tm @ [\<lparr>msg_type = ''human'',
                                   content = composed_text (backgroundContext s) inp,
                                   msg_id = Some (string_of_nat now)\<rparr>],
                 initial_search_query_count = fst (effort_table eff),
                 max_research_loops = snd (effort_table eff),
                 reasoning_model = mdl\<rparr>"
    using t
    by (simp add: handleSubmit_def Let_def effort_table_cases composed_text_def
        split: option.splits)
  have 2: "backgroundContext s = Some c \<and> c \<noteq> [] \<longrightarrow>
            composed_text (backgroundContext s) inp
              = ''Background Context:'' @ [CHR 0x0A] @ c @ [CHR 0x0A, CHR 0x0A]
                @ ''User Query:'' @ [CHR 0x0A] @ inp"
    by (simp add: composed_text_def)
  have 3: "backgroundContext s = None \<or> backgroundContext s = Some [] \<longrightarrow>
            composed_text (backgroundContext s) inp = inp"
    by (auto simp: composed_text_def)
  have 4: "effort_table ''low'' = (1, 1)" "effort_table ''medium'' = (3, 3)"
    "effort_table ''high'' = (5, 10)"
    by (simp_all add: effort_table_def)
  have 5: "eff \<notin> {''low'', ''medium'', ''high''} \<longrightarrow> effort_table eff = (0, 0)"
    by (simp add: effort_table_cases)
  show ?thesis
    using 1 2 3 4 5 by blast
qed

text \<open>
  The theorem at the input Q: with the context C and the effort high, and with no
  context and an effort outside the table.
\<close>

theorem submission_payload_witness:
  "(\<exists>c \<in> set ''Q''. \<not> is_whitespace c)
   \<and> snd (handleSubmit [] 42 ''Q'' ''high'' ''m'' (setBackgroundContext ''C'' init_state))
       = Some \<lparr>messages =
                 [\<lparr>msg_type = ''human'',
                   content = ''Background Context:'' @ [CHR 0x0A] @ ''C'' @ [CHR 0x0A, CHR 0x0A]
                             @ ''User Query:'' @ [CHR 0x0A] @ ''Q'',
                   msg_id = Some ''42''\<rparr>],
               initial_search_query_count = 5, max_research_loops = 10,
               reasoning_model = ''m''\<rparr>
   \<and> snd (handleSubmit [] 42 ''Q'' ''turbo'' ''m'' init_state)
       = Some \<lparr>messages = [\<lparr>msg_type = ''human'', content = ''Q'', msg_id = Some ''42''\<rparr>],
               initial_search_query_count = 0, max_research_loops = 0,
               reasoning_model = ''m''\<rparr>"
proof -
  have c: "backgroundContext (setBackgroundContext ''C'' init_state) = Some ''C''"
    by (simp add: setBackgroundContext_def)
  have n: "backgroundContext init_state = None"
    by (simp add: init_state_def)
  have e: "''turbo'' \<notin> {''low'', ''medium'', ''high''}"
    by simp
  show ?thesis
    using submission_payload [OF nonblank_Q, of "[]" 42 "''high''" "''m''"
            "setBackgroundContext ''C'' init_state" "''C''"]
          submission_payload [OF nonblank_Q, of "[]" 42 "''turbo''" "''m''" init_state "''C''"]
          nonblank_Q c n e
    by (simp add: string_of_nat_42)
qed

section \<open>C7: a submission resets the timeline and the ref\<close>

text \<open>
  Claim C7. \<open>handleSubmit\<close> submits a payload exactly when the input is not blank, and
  whenever it submits one, the live timeline has been emptied and the ref cleared by
  the time the payload is handed over, whatever the state before, with or without a
  background context.
\<close>

theorem submission_reset:
  "(snd (handleSubmit tm now inp eff mdl s) \<noteq> None \<longleftrightarrow> (\<exists>c \<in> set inp. \<not> is_whitespace c))
   \<and> (snd (handleSubmit tm now inp eff mdl s) \<noteq> None \<longrightarrow>
        liveTimeline (fst (handleSubmit tm now inp eff mdl s)) = []
        \<and> \<not> hasFinalizeEventOccurredRef (fst (handleSubmit tm now inp eff mdl s)))"
proof (cases "trim inp = []")
  case True
  then show ?thesis
    by (simp add: handleSubmit_blank) (simp add: trim_empty_iff)
next
  case False
  have "\<exists>p. snd (handleSubmit tm now inp eff mdl s) = Some p"
    using handleSubmit_content [OF False] by blast
  moreover have "\<exists>c \<in> set inp. \<not> is_whitespace c"
    using False by (simp add: trim_empty_iff)
  moreover have "liveTimeline (fst (handleSubmit tm now inp eff mdl s)) = []"
    by (simp add: handleSubmit_state [OF False] liveTimeline_def)
  moreover have "\<not> hasFinalizeEventOccurredRef (fst (handleSubmit tm now inp eff mdl s))"
    by (simp add: handleSubmit_state [OF False])
  ultimately show ?thesis by auto
qed

text \<open>
  The theorem in a state with a background context, a non-empty timeline and the ref
  set.
\<close>

theorem submission_reset_witness:
  "(\<exists>c \<in> set ''Q''. \<not> is_whitespace c)
   \<and> liveTimeline (setBackgroundContext ''C'' after_finalize) \<noteq> []
   \<and> hasFinalizeEventOccurredRef (setBackgroundContext ''C'' after_finalize)
   \<and> snd (handleSubmit [] 42 ''Q'' ''low'' ''m'' (setBackgroundContext ''C'' after_finalize)) \<noteq> None
   \<and> liveTimeline (fst (handleSubmit [] 42 ''Q'' ''low'' ''m''
                          (setBackgroundContext ''C'' after_finalize))) = []
   \<and> \<not> hasFinalizeEventOccurredRef
         (fst (handleSubmit [] 42 ''Q'' ''low'' ''m'' (setBackgroundContext ''C'' after_finalize)))"
proof -
  have b: "liveTimeline (setBackgroundContext ''C'' after_finalize) \<noteq> []"
    "hasFinalizeEventOccurredRef (setBackgroundContext ''C'' after_finalize)"
    by (simp_all add: context_after_finalize liveTimeline_def)
  show ?thesis
    using submission_reset [of "[]" 42 "''Q''" "''low''" "''m''"
            "setBackgroundContext ''C'' after_finalize"]
          nonblank_Q b
    by blast
qed

section \<open>C9: a blank submission does nothing\<close>

text \<open>
  Claim C9. When the input is empty or consists of white space only, \<open>handleSubmit\<close>
  returns the state it was given, so the timeline, the ref, the archived timelines and
  the background context are unchanged, and no payload is submitted.
\<close>

theorem blank_submission_noop:
  assumes "\<forall>c \<in> set inp. is_whitespace c"
  shows "handleSubmit tm now inp eff mdl s = (s, None)"
  using assms by (simp add: handleSubmit_blank trim_empty_iff)

text \<open>The theorem at an input of a space, a tab and a line feed, and at the empty input.\<close>

theorem blank_submission_noop_witness:
  "list_all is_whitespace [CHR '' '', CHR 0x09, CHR 0x0A]
   \<and> handleSubmit [] 42 [CHR '' '', CHR 0x09, CHR 0x0A] ''low'' ''m'' after_finalize
       = (after_finalize, None)
   \<and> handleSubmit [] 42 [] ''low'' ''m'' after_finalize = (after_finalize, None)"
proof -
  have w: "\<forall>c \<in> set [CHR '' '', CHR 0x09, CHR 0x0A]. is_whitespace c"
    by (simp add: is_whitespace_def)
  have e: "\<forall>c \<in> set []. is_whitespace c"
    by simp
  show ?thesis
    using blank_submission_noop [OF w, of "[]" 42 "''low''" "''m''" after_finalize]
          blank_submission_noop [OF e, of "[]" 42 "''low''" "''m''" after_finalize] w
    by (simp add: list_all_iff)
qed

section \<open>C10: the background context outlives a submission\<close>

text \<open>
  Claim C10. A submission leaves the background context as it is. Once a context is
  set (to a non-empty string), it stays through any run of submissions, notifications
  and runs of the archive effect, and a submission made after such a run carries it as
  preamble; only \<open>clearBackgroundContext\<close>, after which the input is sent verbatim, and
  a widget handing over another context change it.
\<close>

theorem background_context_persists:
  assumes c: "backgroundContext s = Some c" and n: "c \<noteq> []"
    and a: "\<forall>a \<in> set acts. \<not> changes_context a"
    and i: "\<exists>ch \<in> set inp. \<not> is_whitespace ch"
  shows "backgroundContext (fst (handleSubmit tm now inp eff mdl s)) = Some c
       \<and> backgroundContext (run s acts) = Some c
       \<and> (\<exists>p. snd (handleSubmit tm now inp eff mdl (run s acts)) = Some p
              \<and> content (last (messages p))
                  = ''Background Context:'' @ [CHR 0x0A] @ c @ [CHR 0x0A, CHR 0x0A]
                    @ ''User Query:'' @ [CHR 0x0A] @ inp)
       \<and> backgroundContext (step (run s acts) ClearContext) = None
       \<and> (\<exists>p. snd (handleSubmit tm now inp eff mdl (step (run s acts) ClearContext)) = Some p
              \<and> content (last (messages p)) = inp)
       \<and> backgroundContext (step (run s acts) (SendToCopilot c')) = Some c'"
proof -
  have t: "trim inp \<noteq> []"
    using i by (simp add: trim_empty_iff)
  have r: "backgroundContext (run s acts) = Some c"
    using context_run [OF a] c by simp
  have 1: "backgroundContext (fst (handleSubmit tm now inp eff mdl s)) = Some c"
    using c by (simp add: context_handleSubmit)
  have 2: "\<exists>p. snd (handleSubmit tm now inp eff mdl (run s acts)) = Some p
              \<and> content (last (messages p))
                  = ''Background Context:'' @ [CHR 0x0A] @ c @ [CHR 0x0A, CHR 0x0A]
                    @ ''User Query:'' @ [CHR 0x0A] @ inp"
    using handleSubmit_content [OF t, of tm now eff mdl "run s acts"] r n
    by (simp add: composed_text_def)
  have 3: "backgroundContext (step (run s acts) ClearContext) = None"
    by (simp add: clearBackgroundContext_def)
  have 4: "\<exists>p. snd (handleSubmit tm now inp eff mdl (step (run s acts) ClearContext)) = Some p
              \<and> content (last (messages p)) = inp"
    using handleSubmit_content [OF t, of tm now eff mdl "step (run s acts) ClearContext"] 3
    by (simp add: composed_text_def)
  have 5: "backgroundContext (step (run s acts) (SendToCopilot c')) = Some c'"
    by (simp add: setBackgroundContext_def)
  show ?thesis using 1 r 2 3 4 5 by blast
qed

text \<open>
  The theorem for the context C: after a first submission, a finalize notification and
  a run of the effect, a second submission of Q still carries C.
\<close>

theorem background_context_persists_witness:
  "backgroundContext (setBackgroundContext ''C'' init_state) = Some ''C''
   \<and> list_all (\<lambda>a. \<not> changes_context a)
         [Submit [] 1 ''Q'' ''low'' ''m'', Update finalize_event, Settled [reply ''m1''] False]
   \<and> (\<exists>ch \<in> set ''Q''. \<not> is_whitespace ch)
   \<and> (\<exists>p. snd (handleSubmit [] 42 ''Q'' ''low'' ''m''
                 (run (setBackgroundContext ''C'' init_state)
                    [Submit [] 1 ''Q'' ''low'' ''m'', Update finalize_event,
                     Settled [reply ''m1''] False])) = Some p
          \<and> content (last (messages p))
              = ''Background Context:'' @ [CHR 0x0A] @ ''C'' @ [CHR 0x0A, CHR 0x0A]
                @ ''User Query:'' @ [CHR 0x0A] @ ''Q'')"
proof -
  have c: "backgroundContext (setBackgroundContext ''C'' init_state) = Some ''C''"
    by (simp add: setBackgroundContext_def)
  have n: "''C'' \<noteq> []"
    by simp
  have a: "\<forall>a \<in> set [Submit [] 1 ''Q'' ''low'' ''m'', Update finalize_event,
                   Settled [reply ''m1''] False]. \<not> changes_context a"
    by simp
  show ?thesis
    using background_context_persists [OF c n a nonblank_Q, of "[]" 42 "''low''" "''m''" "''D''"]
          c nonblank_Q
    by (simp add: list_all_iff)
qed

end
